theory Spec2Isabelle
  imports Complex_Main "HOL-Library.Multiset"
begin

section \<open>JavaScript numbers\<close>

text \<open>
  The equalizer computes with JavaScript numbers. They are modelled as the reals extended
  with the three special values a division can produce: \<open>Infinity\<close>, \<open>-Infinity\<close> and
  \<open>NaN\<close>. Rounding, overflow of finite products and the sign of zero are not modelled:
  a finite result is the exact real result. The operations follow IEEE 754 on the special
  values (\<open>0 / 0 = NaN\<close>, \<open>x / 0 = \<plusminus>Infinity\<close>, \<open>Infinity * 0 = NaN\<close>, \<open>NaN\<close> absorbing).
\<close>

datatype jsnum = Fin real | PInf | NInf | NaN

fun js_times :: "jsnum \<Rightarrow> jsnum \<Rightarrow> jsnum" where
  "js_times NaN _ = NaN"
| "js_times _ NaN = NaN"
| "js_times (Fin a) (Fin b) = Fin (a * b)"
| "js_times (Fin a) PInf = (if a = 0 then NaN else if 0 < a then PInf else NInf)"
| "js_times (Fin a) NInf = (if a = 0 then NaN else if 0 < a then NInf else PInf)"
| "js_times PInf (Fin b) = (if b = 0 then NaN else if 0 < b then PInf else NInf)"
| "js_times NInf (Fin b) = (if b = 0 then NaN else if 0 < b then NInf else PInf)"
| "js_times PInf PInf = PInf"
| "js_times PInf NInf = NInf"
| "js_times NInf PInf = NInf"
| "js_times NInf NInf = PInf"

fun js_divide :: "jsnum \<Rightarrow> jsnum \<Rightarrow> jsnum" where
  "js_divide NaN _ = NaN"
| "js_divide _ NaN = NaN"
| "js_divide (Fin a) (Fin b) =
     (if b \<noteq> 0 then Fin (a / b)
      else if a = 0 then NaN
      else if 0 < a then PInf else NInf)"
| "js_divide (Fin a) PInf = Fin 0"
| "js_divide (Fin a) NInf = Fin 0"
| "js_divide PInf (Fin b) = (if 0 \<le> b then PInf else NInf)"
| "js_divide NInf (Fin b) = (if 0 \<le> b then NInf else PInf)"
| "js_divide PInf PInf = NaN"
| "js_divide PInf NInf = NaN"
| "js_divide NInf PInf = NaN"
| "js_divide NInf NInf = NaN"

fun js_plus :: "jsnum \<Rightarrow> jsnum \<Rightarrow> jsnum" where
  "js_plus NaN _ = NaN"
| "js_plus _ NaN = NaN"
| "js_plus (Fin a) (Fin b) = Fin (a + b)"
| "js_plus (Fin a) PInf = PInf"
| "js_plus (Fin a) NInf = NInf"
| "js_plus PInf (Fin b) = PInf"
| "js_plus NInf (Fin b) = NInf"
| "js_plus PInf PInf = PInf"
| "js_plus PInf NInf = NaN"
| "js_plus NInf PInf = NaN"
| "js_plus NInf NInf = NInf"

text \<open>\<open>Math.cos\<close>: \<open>NaN\<close> on \<open>NaN\<close> and on the infinities.\<close>

fun js_cos :: "jsnum \<Rightarrow> jsnum" where
  "js_cos (Fin a) = Fin (cos a)"
| "js_cos _ = NaN"

text \<open>\<open>Math.min\<close> and \<open>Math.max\<close> of two numbers: \<open>NaN\<close> if either argument is \<open>NaN\<close>.\<close>

fun js_min :: "jsnum \<Rightarrow> jsnum \<Rightarrow> jsnum" where
  "js_min NaN _ = NaN"
| "js_min _ NaN = NaN"
| "js_min NInf _ = NInf"
| "js_min _ NInf = NInf"
| "js_min PInf y = y"
| "js_min x PInf = x"
| "js_min (Fin a) (Fin b) = Fin (min a b)"

fun js_max :: "jsnum \<Rightarrow> jsnum \<Rightarrow> jsnum" where
  "js_max NaN _ = NaN"
| "js_max _ NaN = NaN"
| "js_max PInf _ = PInf"
| "js_max _ PInf = PInf"
| "js_max NInf y = y"
| "js_max x NInf = x"
| "js_max (Fin a) (Fin b) = Fin (max a b)"

text \<open>
  Reading index \<open>i\<close> of an array of numbers for use in arithmetic: an index outside the
  array reads \<open>undefined\<close>, which arithmetic and typed-array stores convert to \<open>NaN\<close>.
\<close>

definition num_at :: "jsnum list \<Rightarrow> int \<Rightarrow> jsnum" where
  "num_at xs i = (if 0 \<le> i \<and> i < int (length xs) then xs ! nat i else NaN)"

section \<open>Bands and the gain curve\<close>

text \<open>
  A band (slider) of the equalizer as the context stores it. The numeric fields are finite
  numbers; ids are the integers \<open>Date.now()\<close> and the default sliders use.
\<close>

record slider =
  id :: int
  centerFreq :: real
  width :: real
  gain :: real
  label :: string

text \<open>
  The body of the \<open>if (distance <= halfWidth)\<close> branch of \<open>generateGainArray\<close>: the value
  \<open>smoothGain\<close> multiplied into \<open>gains[i]\<close>.
\<close>

definition smoothGain :: "slider \<Rightarrow> real \<Rightarrow> jsnum" where
  "smoothGain slider freq =
     (let halfWidth = width slider / 2;
          distance = \<bar>freq - centerFreq slider\<bar>;
          norm = js_divide (Fin distance) (Fin halfWidth);
          smooth = js_cos (js_divide (js_times norm (Fin pi)) (Fin 2))
      in js_plus (Fin 1) (js_times (Fin (gain slider - 1)) smooth))"

text \<open>One iteration of the inner \<open>for\<close> loop, at index \<open>i\<close>.\<close>

definition band_step :: "slider \<Rightarrow> real list \<Rightarrow> nat \<Rightarrow> jsnum list \<Rightarrow> jsnum list" where
  "band_step slider frequencyBins i gains =
     (let halfWidth = width slider / 2;
          freq = frequencyBins ! i;
          distance = \<bar>freq - centerFreq slider\<bar>
      in if distance \<le> halfWidth
         then gains[i := js_times (gains ! i) (smoothGain slider freq)]
         else gains)"

text \<open>
  \<open>generateGainArray\<close>: an array of ones, then for each slider in order the loop over
  all bins.
\<close>

definition generateGainArray :: "slider list \<Rightarrow> real list \<Rightarrow> jsnum list" where
  "generateGainArray sliders frequencyBins =
     fold (\<lambda>slider gains. fold (band_step slider frequencyBins) [0..<length frequencyBins] gains)
       sliders (replicate (length frequencyBins) (Fin 1.0))"

text \<open>Auxiliary notions for the proofs: whether a band reaches a frequency, and what one
  band does to one entry of the curve.\<close>

definition covers :: "slider \<Rightarrow> real \<Rightarrow> bool" where
  "covers slider freq \<longleftrightarrow> \<bar>freq - centerFreq slider\<bar> \<le> width slider / 2"

definition gain_step :: "real \<Rightarrow> slider \<Rightarrow> jsnum \<Rightarrow> jsnum" where
  "gain_step freq slider g =
     (if covers slider freq then js_times g (smoothGain slider freq) else g)"


definition bass :: slider where
  "bass = \<lparr>id = 1, centerFreq = 100, width = 150, gain = 1.5, label = ''Bass''\<rparr>"

definition mid :: slider where
  "mid = \<lparr>id = 2, centerFreq = 1000, width = 800, gain = 1.0, label = ''Mid''\<rparr>"

section \<open>Binary64 arithmetic\<close>

text \<open>
  The numbers of the program are binary64 numbers, and each arithmetic operation gives the
  exact result rounded to the nearest binary64 number, ties to the even significand. Where
  a claim states an exact equality between computed numbers, it is decided on this
  arithmetic. \<open>round64\<close> rounds a real: 53 significant bits at the exponent of the
  number, the exponent not below that of the subnormal numbers, and an infinity when the
  rounded magnitude reaches \<open>2 ^ 1024\<close>. The sign of zero is not modelled.
\<close>

definition round_even :: "real \<Rightarrow> int" where
  "round_even y =
     (let n = \<lfloor>y\<rfloor>; d = y - of_int n
      in if d < 1 / 2 then n else if 1 / 2 < d then n + 1 else if even n then n else n + 1)"

definition expo :: "real \<Rightarrow> int" where
  "expo x = max (- 1022) \<lfloor>log 2 \<bar>x\<bar>\<rfloor>"

definition round_at :: "int \<Rightarrow> real \<Rightarrow> real" where
  "round_at e x = of_int (round_even (x / 2 powi (e - 52))) * 2 powi (e - 52)"

definition round64 :: "real \<Rightarrow> jsnum" where
  "round64 x =
     (if x = 0 then Fin 0
      else let r = round_at (expo x) x
           in if 2 ^ 1024 \<le> \<bar>r\<bar> then (if 0 < x then PInf else NInf) else Fin r)"

fun rnd :: "jsnum \<Rightarrow> jsnum" where
  "rnd (Fin x) = round64 x"
| "rnd v = v"

text \<open>\<open>-x\<close>, \<open>Math.abs\<close> and \<open>x <= y\<close> on numbers (exact), and the rounded operations.
  \<open>Math.cos\<close> is taken as correctly rounded; the language fixes only \<open>cos 0 = 1\<close>, and the
  results below use nothing more of it.\<close>

fun js_uminus :: "jsnum \<Rightarrow> jsnum" where
  "js_uminus (Fin a) = Fin (- a)"
| "js_uminus PInf = NInf"
| "js_uminus NInf = PInf"
| "js_uminus NaN = NaN"

fun js_abs :: "jsnum \<Rightarrow> jsnum" where
  "js_abs (Fin a) = Fin \<bar>a\<bar>"
| "js_abs PInf = PInf"
| "js_abs NInf = PInf"
| "js_abs NaN = NaN"

fun js_le :: "jsnum \<Rightarrow> jsnum \<Rightarrow> bool" where
  "js_le NaN _ = False"
| "js_le _ NaN = False"
| "js_le NInf _ = True"
| "js_le _ PInf = True"
| "js_le PInf _ = False"
| "js_le _ NInf = False"
| "js_le (Fin a) (Fin b) = (a \<le> b)"

definition f64_plus :: "jsnum \<Rightarrow> jsnum \<Rightarrow> jsnum" where
  "f64_plus a b = rnd (js_plus a b)"

definition f64_minus :: "jsnum \<Rightarrow> jsnum \<Rightarrow> jsnum" where
  "f64_minus a b = rnd (js_plus a (js_uminus b))"

definition f64_times :: "jsnum \<Rightarrow> jsnum \<Rightarrow> jsnum" where
  "f64_times a b = rnd (js_times a b)"

definition f64_divide :: "jsnum \<Rightarrow> jsnum \<Rightarrow> jsnum" where
  "f64_divide a b = rnd (js_divide a b)"

definition f64_cos :: "jsnum \<Rightarrow> jsnum" where
  "f64_cos a = rnd (js_cos a)"

text \<open>\<open>Math.PI\<close>: the binary64 number nearest to \<open>pi\<close>.\<close>

definition Math_PI :: real where
  "Math_PI = 884279719003555 / 281474976710656"

text \<open>
  \<open>generateGainArray\<close> once more, line for line, on binary64 arithmetic. The fields of the
  bands and the entries of the axis are the binary64 numbers the program holds.
\<close>

definition smoothGain64 :: "slider \<Rightarrow> real \<Rightarrow> jsnum" where
  "smoothGain64 slider freq =
     (let halfWidth = f64_divide (Fin (width slider)) (Fin 2);
          distance = js_abs (f64_minus (Fin freq) (Fin (centerFreq slider)));
          norm = f64_divide distance halfWidth;
          smooth = f64_cos (f64_divide (f64_times norm (Fin Math_PI)) (Fin 2))
      in f64_plus (Fin 1) (f64_times (f64_minus (Fin (gain slider)) (Fin 1)) smooth))"

definition band_step64 :: "slider \<Rightarrow> real list \<Rightarrow> nat \<Rightarrow> jsnum list \<Rightarrow> jsnum list" where
  "band_step64 slider frequencyBins i gains =
     (let halfWidth = f64_divide (Fin (width slider)) (Fin 2);
          freq = frequencyBins ! i;
          distance = js_abs (f64_minus (Fin freq) (Fin (centerFreq slider)))
      in if js_le distance halfWidth
         then gains[i := f64_times (gains ! i) (smoothGain64 slider freq)]
         else gains)"

definition generateGainArray64 :: "slider list \<Rightarrow> real list \<Rightarrow> jsnum list" where
  "generateGainArray64 sliders frequencyBins =
     fold (\<lambda>slider gains. fold (band_step64 slider frequencyBins) [0..<length frequencyBins] gains)
       sliders (replicate (length frequencyBins) (Fin 1.0))"

text \<open>For the proofs: the test of the loop, one band's effect on one entry, and a
  positive number.\<close>

definition covers64 :: "slider \<Rightarrow> real \<Rightarrow> bool" where
  "covers64 slider freq \<longleftrightarrow>
     js_le (js_abs (f64_minus (Fin freq) (Fin (centerFreq slider))))
           (f64_divide (Fin (width slider)) (Fin 2))"

definition gain_step64 :: "real \<Rightarrow> slider \<Rightarrow> jsnum \<Rightarrow> jsnum" where
  "gain_step64 freq slider g =
     (if covers64 slider freq then f64_times g (smoothGain64 slider freq) else g)"

fun js_pos :: "jsnum \<Rightarrow> bool" where
  "js_pos (Fin h) = (0 < h)"
| "js_pos PInf = True"
| "js_pos v = False"

text \<open>The binary64 numbers written \<open>0.1\<close> and \<open>0.3\<close>, and a band of gain \<open>g\<close> centered
  at 100 Hz.\<close>

definition tenth :: real where
  "tenth = 3602879701896397 / 36028797018963968"

definition three_tenths :: real where
  "three_tenths = 5404319552844595 / 18014398509481984"

definition band_at_100 :: "real \<Rightarrow> slider" where
  "band_at_100 g = \<lparr>id = 1, centerFreq = 100, width = 150, gain = g, label = ''Band''\<rparr>"

section \<open>The band collection\<close>

text \<open>
  A partial band, as \<open>addSlider\<close> and \<open>updateSlider\<close> receive it and as the settings file
  stores it: each key is present with a value or absent.
\<close>

record slider_data =
  sd_id :: "int option"
  sd_centerFreq :: "real option"
  sd_width :: "real option"
  sd_gain :: "real option"
  sd_label :: "string option"

definition no_data :: slider_data where
  "no_data = \<lparr>sd_id = None, sd_centerFreq = None, sd_width = None, sd_gain = None,
              sd_label = None\<rparr>"

text \<open>
  \<open>v || d\<close>: the default \<open>d\<close> replaces a value that is absent or falsy (the number 0, the
  empty string).
\<close>

definition or_num :: "real option \<Rightarrow> real \<Rightarrow> real" where
  "or_num v d = (case v of None \<Rightarrow> d | Some x \<Rightarrow> if x = 0 then d else x)"

definition or_str :: "string option \<Rightarrow> string \<Rightarrow> string" where
  "or_str v d = (case v of None \<Rightarrow> d | Some x \<Rightarrow> if x = [] then d else x)"

text \<open>The decimal digits of a number, as a template literal prints it.\<close>

fun show_nat :: "nat \<Rightarrow> string" where
  "show_nat n =
     (if n < 10 then [''0123456789'' ! n]
      else show_nat (n div 10) @ [''0123456789'' ! (n mod 10)])"

text \<open>\<open>{ ...slider, ...data }\<close>: every key present in \<open>data\<close> overrides the band's field.\<close>

definition spread :: "slider \<Rightarrow> slider_data \<Rightarrow> slider" where
  "spread s u =
     \<lparr>id = (case sd_id u of None \<Rightarrow> id s | Some v \<Rightarrow> v),
      centerFreq = (case sd_centerFreq u of None \<Rightarrow> centerFreq s | Some v \<Rightarrow> v),
      width = (case sd_width u of None \<Rightarrow> width s | Some v \<Rightarrow> v),
      gain = (case sd_gain u of None \<Rightarrow> gain s | Some v \<Rightarrow> v),
      label = (case sd_label u of None \<Rightarrow> label s | Some v \<Rightarrow> v)\<rparr>"

text \<open>
  The functions of the provider close over the constant \<open>sliders\<close> of the render that
  created them, and \<open>setSliders\<close> replaces the state. Each function is modelled with that
  array as its first argument and returns the array it passes to \<open>setSliders\<close>;
  \<open>addSlider\<close> also returns the band it returns to its caller. \<open>now\<close> is the value of
  \<open>Date.now()\<close> at the call. The debounced recomputation of the audio is not part of
  the collection and is left out.
\<close>

definition addSlider :: "slider list \<Rightarrow> int \<Rightarrow> slider_data \<Rightarrow> slider \<times> slider list" where
  "addSlider sliders now sliderData =
     (let newSlider = spread
            \<lparr>id = now,
             centerFreq = or_num (sd_centerFreq sliderData) 1000,
             width = or_num (sd_width sliderData) 500,
             gain = or_num (sd_gain sliderData) 1.0,
             label = or_str (sd_label sliderData) (''Band '' @ show_nat (length sliders + 1))\<rparr>
            sliderData;
          updatedSliders = sliders @ [newSlider]
      in (newSlider, updatedSliders))"

datatype js_error = TypeError | SyntaxError | NotSupportedError | IndexSizeError | BackendError

text \<open>\<open>updateSlider\<close> has no \<open>throw\<close>: it always returns, with the mapped array.\<close>

definition updateSlider :: "slider list \<Rightarrow> int \<Rightarrow> slider_data \<Rightarrow> js_error + slider list" where
  "updateSlider sliders sliderId updates =
     Inr (map (\<lambda>slider. if id slider = sliderId then spread slider updates else slider) sliders)"

definition removeSlider :: "slider list \<Rightarrow> int \<Rightarrow> slider list" where
  "removeSlider sliders sliderId = filter (\<lambda>slider. id slider \<noteq> sliderId) sliders"

section \<open>Saving and loading the settings\<close>

text \<open>
  The settings record. \<open>JSON.stringify\<close> followed by \<open>JSON.parse\<close> gives back the finite
  numbers and the strings of the record, so the file is modelled by the record itself; a
  file that is not JSON, and a record without the key \<open>sliders\<close>, are cases of their own.
  \<open>saveSettings\<close> is the record the function builds; handing its text to the download
  (\<open>saveAs\<close>, whose import is commented out) is not modelled.
\<close>

record settings =
  st_mode :: string
  st_sliders :: "slider_data list option"
  st_timestamp :: string
  st_version :: string

datatype file_text = NotJson | Json settings

definition saveSettings :: "slider list \<Rightarrow> string \<Rightarrow> settings" where
  "saveSettings sliders timestamp =
     \<lparr>st_mode = ''generic'',
      st_sliders = Some (map (\<lambda>slider.
         \<lparr>sd_id = Some (id slider),
          sd_centerFreq = Some (centerFreq slider),
          sd_width = Some (width slider),
          sd_gain = Some (gain slider),
          sd_label = Some (label slider)\<rparr>) sliders),
      st_timestamp = timestamp,
      st_version = ''1.0''\<rparr>"

text \<open>
  \<open>loadSettings\<close> on the chosen file (\<open>None\<close>: no file chosen). The result is the state
  \<open>sliders\<close> once the handler and its timer have run. Inside the handler \<open>sliders\<close>,
  \<open>removeSlider\<close> and \<open>addSlider\<close> are those of the render that created the handler:
  every call in the two \<open>forEach\<close> loops reads the same array \<open>sliders\<close> and replaces the
  state with an array computed from it. \<open>clock k\<close> is \<open>Date.now()\<close> at the \<open>k\<close>-th call of
  \<open>addSlider\<close>.
\<close>

definition loadSettings :: "slider list \<Rightarrow> (nat \<Rightarrow> int) \<Rightarrow> file_text option \<Rightarrow> slider list" where
  "loadSettings sliders clock file =
     (case file of
        None \<Rightarrow> sliders
      | Some NotJson \<Rightarrow> sliders
      | Some (Json settings) \<Rightarrow>
          (case st_sliders settings of
             None \<Rightarrow> sliders
           | Some loaded \<Rightarrow>
               if st_mode settings = ''generic'' then
                 (let cleared = fold (\<lambda>slider state. removeSlider sliders (id slider))
                                  sliders sliders
                  in fold (\<lambda>(k, sliderData) state. snd (addSlider sliders (clock k) sliderData))
                       (enumerate 0 loaded) cleared)
               else sliders))"

section \<open>Audio buffers\<close>

text \<open>
  An \<open>AudioBuffer\<close>: its three read-only attributes and the sample arrays of its
  channels. Samples are numbers (a product with a missing gain is \<open>NaN\<close>); the rounding
  to 32-bit floats is not modelled.
\<close>

record audio_buffer =
  numberOfChannels :: nat
  buf_length :: nat
  sampleRate :: real
  channelData :: "jsnum list list"

text \<open>
  Buffers are objects: the functions below receive and return references, and write
  through the arrays \<open>getChannelData\<close> hands out. The store is the list of the buffers
  allocated so far, a reference is an index into it, and allocation appends.
\<close>

type_synonym heap = "audio_buffer list"

datatype audio_context = AudioCtx

text \<open>
  \<open>createBuffer\<close> of the platform: a new buffer of silence; \<open>NotSupportedError\<close> for
  zero channels or zero length. (The sample rates passed here are those of existing
  buffers; the platform's rate limits are not modelled.)
\<close>

definition createBuffer :: "heap \<Rightarrow> nat \<Rightarrow> nat \<Rightarrow> real \<Rightarrow> js_error + (nat \<times> heap)" where
  "createBuffer h nch len sr =
     (if nch = 0 \<or> len = 0 then Inl NotSupportedError
      else Inr (length h,
                h @ [\<lparr>numberOfChannels = nch, buf_length = len, sampleRate = sr,
                      channelData = replicate nch (replicate len (Fin 0))\<rparr>]))"

text \<open>\<open>buffer.getChannelData(ch)[i]\<close>, read for arithmetic, and \<open>buffer.getChannelData(ch)[i] = v\<close>.\<close>

definition read_sample :: "heap \<Rightarrow> nat \<Rightarrow> nat \<Rightarrow> nat \<Rightarrow> jsnum" where
  "read_sample h a ch i = num_at (channelData (h ! a) ! ch) (int i)"

definition write_sample :: "heap \<Rightarrow> nat \<Rightarrow> nat \<Rightarrow> nat \<Rightarrow> jsnum \<Rightarrow> heap" where
  "write_sample h a ch i v =
     h[a := (h ! a)\<lparr>channelData := (channelData (h ! a))[ch := (channelData (h ! a) ! ch)[i := v]]\<rparr>]"

text \<open>A buffer as the platform makes them: at least one channel and one sample, every
  channel of the buffer's length.\<close>

definition wf_buffer :: "audio_buffer \<Rightarrow> bool" where
  "wf_buffer b \<longleftrightarrow>
     0 < numberOfChannels b \<and> 0 < buf_length b \<and>
     length (channelData b) = numberOfChannels b \<and>
     (\<forall>xs\<in>set (channelData b). length xs = buf_length b)"

section \<open>Applying the gains\<close>

text \<open>
  \<open>applySimpleProcessing\<close>. The body of the inner loop writes sample \<open>i\<close> of channel \<open>ch\<close>
  of the new buffer \<open>c\<close> from the same sample of the input buffer \<open>a\<close>, both read and
  written in the store as it is at that moment.
\<close>

definition sample_step :: "nat \<Rightarrow> nat \<Rightarrow> jsnum list \<Rightarrow> nat \<Rightarrow> nat \<Rightarrow> heap \<Rightarrow> heap" where
  "sample_step a c gainArray ch i h =
     write_sample h c ch i (js_times (read_sample h a ch i) (num_at gainArray (int i)))"

definition channel_step :: "nat \<Rightarrow> nat \<Rightarrow> jsnum list \<Rightarrow> nat \<Rightarrow> nat \<Rightarrow> heap \<Rightarrow> heap" where
  "channel_step a c gainArray len ch h = fold (sample_step a c gainArray ch) [0..<len] h"

definition applySimpleProcessing ::
  "audio_context option \<Rightarrow> heap \<Rightarrow> nat \<Rightarrow> jsnum list \<Rightarrow> js_error + (nat \<times> heap)" where
  "applySimpleProcessing audioContextRef h audioBuffer gainArray =
     (case audioContextRef of
        None \<Rightarrow> Inl TypeError
      | Some ctx \<Rightarrow>
          (case createBuffer h (numberOfChannels (h ! audioBuffer)) (buf_length (h ! audioBuffer))
                  (sampleRate (h ! audioBuffer)) of
             Inl e \<Rightarrow> Inl e
           | Inr (clonedBuffer, h1) \<Rightarrow>
               Inr (clonedBuffer,
                    fold (channel_step audioBuffer clonedBuffer gainArray (buf_length (h ! audioBuffer)))
                      [0..<numberOfChannels (h ! audioBuffer)] h1)))"

text \<open>For the proofs: the buffer that local processing produces from a buffer
  and a gain array, written as a value.\<close>

definition processed :: "audio_buffer \<Rightarrow> jsnum list \<Rightarrow> audio_buffer" where
  "processed b gainArray =
     \<lparr>numberOfChannels = numberOfChannels b, buf_length = buf_length b, sampleRate = sampleRate b,
      channelData = map (\<lambda>ch. map (\<lambda>i. js_times (num_at (channelData b ! ch) (int i))
                                               (num_at gainArray (int i)))
                                   [0..<buf_length b])
                        [0..<numberOfChannels b]\<rparr>"

section \<open>Delegating to the backend\<close>

text \<open>
  What the request to the processing service can come to: \<open>fetch\<close> rejects (service
  unreachable), or it resolves with a response that is \<open>ok\<close> or not and whose body is not
  JSON, or JSON without the key \<open>processedAudio\<close>, or JSON with an array there. The
  entries of the array are followed as far as numbers, booleans and \<open>null\<close>; storing an
  entry into the samples of a buffer converts it to a number.
\<close>

datatype json_value = JNull | JBool bool | JNum real

fun to_number :: "json_value \<Rightarrow> jsnum" where
  "to_number JNull = Fin 0"
| "to_number (JBool b) = Fin (if b then 1 else 0)"
| "to_number (JNum x) = Fin x"

datatype response_body = BodyNotJson | BodyJson "json_value list option"

datatype fetch_outcome = FetchRejected | FetchResponse bool response_body

text \<open>The \<open>try\<close> block of \<open>processWithBackend\<close>: every \<open>throw\<close> and every failing call
  ends it with an error.\<close>

definition processWithBackend_try ::
  "audio_context option \<Rightarrow> heap \<Rightarrow> nat \<Rightarrow> fetch_outcome \<Rightarrow> js_error + (nat \<times> heap)" where
  "processWithBackend_try audioContextRef h audioBuffer outcome =
     (if numberOfChannels (h ! audioBuffer) = 0 then Inl IndexSizeError
      else case outcome of
        FetchRejected \<Rightarrow> Inl TypeError
      | FetchResponse ok body \<Rightarrow>
          if \<not> ok then Inl BackendError
          else (case body of
             BodyNotJson \<Rightarrow> Inl SyntaxError
           | BodyJson None \<Rightarrow> Inl TypeError
           | BodyJson (Some processedAudio) \<Rightarrow>
               (case audioContextRef of
                  None \<Rightarrow> Inl TypeError
                | Some ctx \<Rightarrow>
                    (case createBuffer h 1 (length processedAudio) (sampleRate (h ! audioBuffer)) of
                       Inl e \<Rightarrow> Inl e
                     | Inr (processedBuffer, h1) \<Rightarrow>
                         Inr (processedBuffer,
                              h1[processedBuffer := (h1 ! processedBuffer)
                                \<lparr>channelData := (channelData (h1 ! processedBuffer))
                                     [0 := map to_number processedAudio]\<rparr>])))))"

text \<open>\<open>processWithBackend\<close>: the \<open>catch\<close> answers every error of the \<open>try\<close> block with
  \<open>applySimpleProcessing\<close>. The bands only travel in the request.\<close>

definition processWithBackend ::
  "audio_context option \<Rightarrow> heap \<Rightarrow> nat \<Rightarrow> slider list \<Rightarrow> jsnum list \<Rightarrow> fetch_outcome
     \<Rightarrow> js_error + (nat \<times> heap)" where
  "processWithBackend audioContextRef h audioBuffer bands gainArray outcome =
     (case processWithBackend_try audioContextRef h audioBuffer outcome of
        Inr r \<Rightarrow> Inr r
      | Inl error \<Rightarrow> applySimpleProcessing audioContextRef h audioBuffer gainArray)"

text \<open>The failures of the request that end the \<open>try\<close> block with an error: unreachable
  service, a response that is not \<open>ok\<close>, a body that is not JSON or has no
  \<open>processedAudio\<close>, or an empty one (no buffer of length 0 can be created).\<close>

fun request_failed :: "fetch_outcome \<Rightarrow> bool" where
  "request_failed FetchRejected = True"
| "request_failed (FetchResponse False body) = True"
| "request_failed (FetchResponse True BodyNotJson) = True"
| "request_failed (FetchResponse True (BodyJson None)) = True"
| "request_failed (FetchResponse True (BodyJson (Some processedAudio))) = (processedAudio = [])"

definition tone :: audio_buffer where
  "tone = \<lparr>numberOfChannels = 1, buf_length = 3, sampleRate = 44100,
           channelData = [[Fin 0.5, Fin (-0.25), Fin 0.75]]\<rparr>"

section \<open>Previewing a selected region\<close>

text \<open>
  A selected region of the waveform: pixel positions, and the sample indices when they
  were computed at selection time.
\<close>

record region =
  rg_start :: real
  rg_end :: real
  rg_startSample :: "int option"
  rg_endSample :: "int option"

text \<open>What \<open>playSelectedRegion\<close> comes to: one of its three alerts, or the segment
  buffer it hands to playback.\<close>

datatype play_outcome = SelectRegionAlert | InvalidSegmentAlert | PlayErrorAlert | Playback audio_buffer

text \<open>\<open>currentSelection || selection\<close>.\<close>

definition selectionToUse :: "region option \<Rightarrow> region option \<Rightarrow> region option" where
  "selectionToUse currentSelection selection =
     (case currentSelection of Some s \<Rightarrow> Some s | None \<Rightarrow> selection)"

text \<open>The sample indices: those stored with the selection if both are there, otherwise
  computed from the pixel positions on the 800 pixel wide canvas (in exact arithmetic).\<close>

definition sample_range :: "region \<Rightarrow> audio_buffer \<Rightarrow> int \<times> int" where
  "sample_range s inputSignal =
     (case (rg_startSample s, rg_endSample s) of
        (Some startSample, Some endSample) \<Rightarrow> (startSample, endSample)
      | _ \<Rightarrow> (let totalSamples = real (buf_length inputSignal)
             in (\<lfloor>(rg_start s / 800) * totalSamples\<rfloor>, \<lfloor>(rg_end s / 800) * totalSamples\<rfloor>)))"

text \<open>One iteration of the copy loop, at index \<open>i\<close> of the segment.\<close>

definition region_step :: "jsnum list \<Rightarrow> int \<Rightarrow> bool \<Rightarrow> real \<Rightarrow> nat \<Rightarrow> jsnum list \<Rightarrow> jsnum list" where
  "region_step channel startSample useGain gainValue i audioData =
     (let sourceIndex = startSample + int i
      in if sourceIndex < int (length channel) then
           (if useGain \<and> gainValue \<noteq> 1.0
            then audioData[i := js_max (Fin (- 1.0))
                                (js_min (Fin 1.0) (js_times (num_at channel sourceIndex) (Fin gainValue)))]
            else audioData[i := num_at channel sourceIndex])
         else audioData)"

text \<open>
  \<open>playSelectedRegion\<close>, up to the segment buffer. A buffer without channel 0 makes
  \<open>getChannelData(0)\<close> throw inside the \<open>try\<close>, which the \<open>catch\<close> turns into an alert.
\<close>

definition playSelectedRegion ::
  "region option \<Rightarrow> region option \<Rightarrow> audio_buffer option \<Rightarrow> bool \<Rightarrow> real \<Rightarrow> play_outcome" where
  "playSelectedRegion currentSelection selection inputSignal useGain gainValue =
     (case selectionToUse currentSelection selection of
        None \<Rightarrow> SelectRegionAlert
      | Some s \<Rightarrow>
          (case inputSignal of
             None \<Rightarrow> SelectRegionAlert
           | Some signal \<Rightarrow>
               (let (startSample, endSample) = sample_range s signal;
                    segmentLength = endSample - startSample
                in if segmentLength \<le> 0 then InvalidSegmentAlert
                   else (case channelData signal of
                      [] \<Rightarrow> PlayErrorAlert
                    | channel # others \<Rightarrow>
                        (let audioData =
                               fold (region_step channel startSample useGain gainValue)
                                 [0..<nat segmentLength] (replicate (nat segmentLength) (Fin 0))
                         in Playback \<lparr>numberOfChannels = 1, buf_length = nat segmentLength,
                                      sampleRate = sampleRate signal,
                                      channelData = [audioData]\<rparr>)))))"



definition clip :: audio_buffer where
  "clip = \<lparr>numberOfChannels = 1, buf_length = 4, sampleRate = 44100,
           channelData = [[Fin 0.1, Fin 0.75, Fin (-0.9), Fin 0.2]]\<rparr>"

definition picked :: region where
  "picked = \<lparr>rg_start = 200, rg_end = 600, rg_startSample = Some 1, rg_endSample = Some 3\<rparr>"

section \<open>Index loops\<close>

text \<open>
  A \<open>for\<close> loop over the indices \<open>0..<n\<close> whose body rewrites only entry \<open>j\<close> of the
  array, from the old entry \<open>j\<close>, computes \<open>F k\<close> at each index \<open>k < n\<close>.
\<close>

lemma fold_index_loop:
  assumes len: "\<And>j ys. length (G j ys) = length ys"
      and nth: "\<And>j k ys. k < length ys \<Longrightarrow> G j ys ! k = (if k = j then F j (ys ! j) else ys ! k)"
  shows "length (fold G [0..<n] xs) = length xs \<and>
         (\<forall>k<length xs. fold G [0..<n] xs ! k = (if k < n then F k (xs ! k) else xs ! k))"
proof (induction n)
  case 0
  show ?case by simp
next
  case (Suc n)
  let ?ys = "fold G [0..<n] xs"
  have step: "fold G [0..<Suc n] xs = G n ?ys" by simp
  from Suc have l: "length ?ys = length xs"
    and v: "\<And>k. k < length xs \<Longrightarrow> ?ys ! k = (if k < n then F k (xs ! k) else xs ! k)"
    by simp_all
  have "length (G n ?ys) = length xs" using len l by simp
  moreover have "\<forall>k<length xs. G n ?ys ! k = (if k < Suc n then F k (xs ! k) else xs ! k)"
  proof (intro allI impI)
    fix k assume k: "k < length xs"
    then have "G n ?ys ! k = (if k = n then F n (?ys ! n) else ?ys ! k)"
      using nth [of k ?ys n] l by simp
    then show "G n ?ys ! k = (if k < Suc n then F k (xs ! k) else xs ! k)"
      using v [OF k] k by (auto simp: less_Suc_eq)
  qed
  ultimately show ?case unfolding step by blast
qed

section \<open>The gain curve, entry by entry\<close>

lemma band_step_length: "length (band_step slider bins j ys) = length ys"
  by (simp add: band_step_def Let_def)

lemma band_step_nth:
  "k < length ys \<Longrightarrow>
   band_step slider bins j ys ! k = (if k = j then gain_step (bins ! j) slider (ys ! j) else ys ! k)"
  by (simp add: band_step_def gain_step_def covers_def Let_def)

lemma band_loop:
  assumes "length gains = length bins"
  shows "length (fold (band_step slider bins) [0..<length bins] gains) = length bins"
    and "k < length bins \<Longrightarrow>
         fold (band_step slider bins) [0..<length bins] gains ! k = gain_step (bins ! k) slider (gains ! k)"
  using fold_index_loop [of "band_step slider bins" "\<lambda>j. gain_step (bins ! j) slider" "length bins" gains,
      OF band_step_length band_step_nth] assms
  by simp_all

lemma sliders_loop:
  assumes "length gains = length bins"
  shows "length (fold (\<lambda>slider gains. fold (band_step slider bins) [0..<length bins] gains) sliders gains)
           = length bins \<and>
         (\<forall>k<length bins.
            fold (\<lambda>slider gains. fold (band_step slider bins) [0..<length bins] gains) sliders gains ! k
              = fold (gain_step (bins ! k)) sliders (gains ! k))"
  using assms
proof (induction sliders arbitrary: gains)
  case Nil
  then show ?case by simp
next
  case (Cons s sliders)
  let ?g = "fold (band_step s bins) [0..<length bins] gains"
  have l: "length ?g = length bins" using band_loop(1) [OF Cons.prems] .
  from Cons.IH [OF l] band_loop(2) [OF Cons.prems] show ?case by simp
qed

lemma generateGainArray_length: "length (generateGainArray sliders bins) = length bins"
  using sliders_loop [of "replicate (length bins) (Fin 1)" bins sliders]
  by (simp add: generateGainArray_def)

lemma generateGainArray_nth:
  "i < length bins \<Longrightarrow> generateGainArray sliders bins ! i = fold (gain_step (bins ! i)) sliders (Fin 1)"
  using sliders_loop [of "replicate (length bins) (Fin 1)" bins sliders]
  by (simp add: generateGainArray_def)





section \<open>Zero bandwidth\<close>

lemma zero_width_only_center:
  "width b = 0 \<Longrightarrow> f \<noteq> centerFreq b \<Longrightarrow> gain_step f b g = g"
  by (simp add: gain_step_def covers_def)

lemma zero_width_center_NaN:
  "width b = 0 \<Longrightarrow> gain_step (centerFreq b) b g = NaN"
  by (cases g) (simp_all add: gain_step_def covers_def smoothGain_def)

lemma fold_gain_step_NaN: "fold (gain_step f) sliders NaN = NaN"
  by (induction sliders) (simp_all add: gain_step_def)

text \<open>
  A band of bandwidth 0 passes the test \<open>distance <= halfWidth\<close> exactly at its center
  frequency, where \<open>norm = 0 / 0\<close>: whatever the other bands are, the entry of the curve at
  that frequency is \<open>NaN\<close>.
\<close>

lemma zero_width_curve_NaN:
  assumes "b \<in> set sliders" "width b = 0" "i < length bins" "bins ! i = centerFreq b"
  shows "generateGainArray sliders bins ! i = NaN"
proof -
  from assms(1) obtain xs ys where s: "sliders = xs @ b # ys"
    by (auto simp: in_set_conv_decomp)
  have "gain_step (bins ! i) b g = NaN" for g
    using zero_width_center_NaN [OF assms(2), of g] assms(4) by simp
  then show ?thesis
    by (simp add: generateGainArray_nth [OF assms(3)] s fold_gain_step_NaN)
qed

text \<open>
  Claim C2 says that with a band of bandwidth 0 no division by zero happens and every entry
  of the curve is a finite number, the band giving its full gain at its center frequency.
  The code divides \<open>0\<close> by \<open>0\<close> there: for the single band of center 100 Hz, bandwidth 0 and
  gain 1.5 on the axis 25, 100, 175, 500 Hz the entry at 100 Hz is \<open>NaN\<close>, not 1.5.
\<close>

theorem generateGainArray_zero_width_NaN:
  "generateGainArray [\<lparr>id = 1, centerFreq = 100, width = 0, gain = 1.5, label = ''Bass''\<rparr>]
     [25, 100, 175, 500] = [Fin 1, NaN, Fin 1, Fin 1]"
  by (simp add: generateGainArray_def band_step_def smoothGain_def upt_rec)

section \<open>Overlap and order in exact arithmetic\<close>

text \<open>
  Without rounding, two bands centered at the axis entry \<open>f\<close> give exactly the product of
  their gains there, and the curve does not depend on the order of the bands.
\<close>

lemma two_centered_bands_exact:
  assumes "centerFreq b1 = f" and "centerFreq b2 = f" and "0 < width b1" and "0 < width b2"
    and "i < length frequencyBins" and "frequencyBins ! i = f"
  shows "generateGainArray [b1, b2] frequencyBins ! i = Fin (gain b1 * gain b2)"
  using assms
  by (simp add: generateGainArray_nth gain_step_def covers_def smoothGain_def)

lemma js_times_commute: "js_times x y = js_times y x"
  by (cases x; cases y) (simp_all add: mult.commute)

lemma js_times_assoc: "js_times (js_times x y) z = js_times x (js_times y z)"
  by (cases x; cases y; cases z)
     (simp_all add: mult.assoc zero_less_mult_iff not_less mult_le_0_iff,
      (auto simp: less_le_not_le)?)

lemma js_times_left_commute: "js_times (js_times g x) y = js_times (js_times g y) x"
  by (metis js_times_assoc js_times_commute)

lemma gain_step_commute: "gain_step f a \<circ> gain_step f b = gain_step f b \<circ> gain_step f a"
  by (rule ext) (simp add: gain_step_def js_times_left_commute)

lemma generateGainArray_permutation_exact:
  assumes "mset sliders = mset sliders'"
  shows "generateGainArray sliders frequencyBins = generateGainArray sliders' frequencyBins"
proof (rule nth_equalityI)
  show "length (generateGainArray sliders frequencyBins) =
        length (generateGainArray sliders' frequencyBins)"
    by (simp add: generateGainArray_length)
next
  fix i assume "i < length (generateGainArray sliders frequencyBins)"
  then have i: "i < length frequencyBins" by (simp add: generateGainArray_length)
  have "fold (gain_step (frequencyBins ! i)) sliders = fold (gain_step (frequencyBins ! i)) sliders'"
    by (rule fold_multiset_equiv) (simp_all add: gain_step_commute assms)
  then show "generateGainArray sliders frequencyBins ! i = generateGainArray sliders' frequencyBins ! i"
    by (simp add: generateGainArray_nth [OF i])
qed

section \<open>Binary64 rounding\<close>

lemma round_even_int [simp]: "round_even (of_int n) = n"
  by (simp add: round_even_def)

lemma round_even_ge: "of_int m \<le> y \<Longrightarrow> m \<le> round_even y"
proof -
  assume "of_int m \<le> y"
  then have "m \<le> \<lfloor>y\<rfloor>" by (simp add: le_floor_iff)
  moreover have "\<lfloor>y\<rfloor> \<le> round_even y" by (simp add: round_even_def Let_def)
  ultimately show ?thesis by simp
qed

lemma round_even_le: "y \<le> of_int m \<Longrightarrow> round_even y \<le> m"
proof -
  assume a: "y \<le> of_int m"
  have "of_int \<lfloor>y\<rfloor> \<le> y" by simp
  then have "of_int \<lfloor>y\<rfloor> \<le> (of_int m :: real)" using a by linarith
  then have f: "\<lfloor>y\<rfloor> \<le> m" by simp
  have "\<lfloor>y\<rfloor> + 1 \<le> m" if "1 / 2 \<le> y - of_int \<lfloor>y\<rfloor>"
  proof -
    have "of_int \<lfloor>y\<rfloor> < y" using that by linarith
    then have "of_int \<lfloor>y\<rfloor> < (of_int m :: real)" using a by linarith
    then have "\<lfloor>y\<rfloor> < m" by simp
    then show ?thesis by simp
  qed
  with f show ?thesis
    by (auto simp: round_even_def Let_def not_less)
qed

lemma floor_log2_eqI:
  assumes "2 powi k \<le> y" and "y < 2 powi (k + 1)"
  shows "\<lfloor>log 2 y\<rfloor> = k"
proof -
  have "(0::real) < 2 powi k" by simp
  then have pos: "0 < y" using assms(1) by linarith
  have "(2::real) powr of_int k = 2 powi k" "(2::real) powr of_int (k + 1) = 2 powi (k + 1)"
    using powr_real_of_int' [of 2 k] powr_real_of_int' [of 2 "k + 1"] by simp_all
  then have "2 powr of_int k \<le> y \<and> y < 2 powr (of_int k + 1)"
    using assms by simp
  then show ?thesis
    using pos by (simp add: floor_log_eq_powr_iff)
qed

lemma expo_eqI:
  assumes "2 powi k \<le> \<bar>x\<bar>" and "\<bar>x\<bar> < 2 powi (k + 1)" and "- 1022 \<le> k"
  shows "expo x = k"
  using floor_log2_eqI [OF assms(1,2)] assms(3) by (simp add: expo_def)

lemma expo_small:
  assumes "y \<noteq> 0" and "\<bar>y\<bar> < 2 powi (- 1021)"
  shows "expo y = - 1022"
proof -
  have pos: "0 < \<bar>y\<bar>" using assms(1) by simp
  have "(2::real) powr of_int (- 1021) = 2 powi (- 1021)"
    using powr_real_of_int' [of 2 "- 1021"] by simp
  then have "\<bar>y\<bar> < 2 powr (- 1021)" using assms(2) by simp
  then have "log 2 \<bar>y\<bar> < - 1021" using pos by (simp add: log_less_iff)
  then have "\<lfloor>log 2 \<bar>y\<bar>\<rfloor> < - 1021" by (simp add: floor_less_iff)
  then show ?thesis by (simp add: expo_def)
qed

lemma expo_bounds:
  assumes "x \<noteq> 0"
  shows "- 1022 \<le> expo x" and "\<bar>x\<bar> < 2 powi (expo x + 1)"
    and "2 powi (expo x) \<le> \<bar>x\<bar> \<or> expo x = - 1022"
proof -
  let ?f = "\<lfloor>log 2 \<bar>x\<bar>\<rfloor>"
  have pos: "0 < \<bar>x\<bar>" using assms by simp
  show "- 1022 \<le> expo x" by (simp add: expo_def)
  have "log 2 \<bar>x\<bar> < of_int (?f + 1)" by linarith
  also have "\<dots> \<le> of_int (expo x + 1)" by (simp add: expo_def)
  finally have "\<bar>x\<bar> < 2 powr of_int (expo x + 1)"
    using pos by (simp add: log_less_iff)
  then show "\<bar>x\<bar> < 2 powi (expo x + 1)"
    using powr_real_of_int' [of 2 "expo x + 1"] by simp
  show "2 powi (expo x) \<le> \<bar>x\<bar> \<or> expo x = - 1022"
  proof (cases "- 1022 \<le> ?f")
    case True
    then have e: "expo x = ?f" by (simp add: expo_def)
    have "2 powr of_int ?f \<le> \<bar>x\<bar>"
      using le_log_iff [of 2 "\<bar>x\<bar>" "of_int ?f"] pos by simp
    then have "2 powi ?f \<le> \<bar>x\<bar>" using powr_real_of_int' [of 2 ?f] by simp
    with e show ?thesis by simp
  next
    case False
    then show ?thesis by (simp add: expo_def)
  qed
qed

lemma pow2_split: "(2::real) powi (e + 1) = 2 ^ 53 * 2 powi (e - 52)"
  "(2::real) powi e = 2 ^ 52 * 2 powi (e - 52)"
proof -
  have "(2::real) powi (e + 1) = 2 powi (53 + (e - 52))" by (simp add: add.commute)
  also have "\<dots> = 2 powi 53 * 2 powi (e - 52)" by (subst power_int_add) simp_all
  finally show "(2::real) powi (e + 1) = 2 ^ 53 * 2 powi (e - 52)" by simp
  have "(2::real) powi e = 2 powi (52 + (e - 52))" by simp
  also have "\<dots> = 2 powi 52 * 2 powi (e - 52)" by (subst power_int_add) simp_all
  finally show "(2::real) powi e = 2 ^ 52 * 2 powi (e - 52)" by simp
qed

lemma round_at_multiple: "round_at e (of_int n * 2 powi (e - 52)) = of_int n * 2 powi (e - 52)"
  by (simp add: round_at_def)

lemma round64_idem:
  assumes "round64 x = Fin r"
  shows "round64 r = Fin r"
proof (cases "x = 0")
  case True
  then show ?thesis using assms by (auto simp: round64_def)
next
  case False
  define e where "e = expo x"
  define q :: real where "q = 2 powi (e - 52)"
  define n where "n = round_even (x / q)"
  have qpos: "0 < q" by (simp add: q_def)
  from assms False have r: "r = of_int n * q" and small: "\<bar>r\<bar> < 2 ^ 1024"
    by (auto simp: round64_def round_at_def Let_def n_def q_def e_def split: if_splits)
  have e_ge: "- 1022 \<le> e" and x_lt: "\<bar>x\<bar> < 2 ^ 53 * q"
    and x_ge: "2 ^ 52 * q \<le> \<bar>x\<bar> \<or> e = - 1022"
    using expo_bounds [OF False] pow2_split [of e] by (simp_all add: e_def q_def)
  have xq: "\<bar>x / q\<bar> < 2 ^ 53" using x_lt qpos by (simp add: pos_divide_less_eq abs_divide)
  have "x / q < 2 ^ 53" "- (2 ^ 53) < x / q" using xq unfolding abs_less_iff by linarith+
  then have b: "x / q \<le> of_int (2 ^ 53)" "of_int (- (2 ^ 53)) \<le> x / q" by simp_all
  have "n \<le> 2 ^ 53" "- (2 ^ 53) \<le> n"
    unfolding n_def using round_even_le [OF b(1)] round_even_ge [OF b(2)] by simp_all
  then have n_le: "\<bar>n\<bar> \<le> 2 ^ 53" by simp
  have n_ge: "2 ^ 52 \<le> \<bar>n\<bar> \<or> e = - 1022"
  proof (cases "2 ^ 52 * q \<le> \<bar>x\<bar>")
    case True
    then have "2 ^ 52 \<le> \<bar>x / q\<bar>" using qpos by (simp add: pos_le_divide_eq abs_divide)
    then consider "of_int (2 ^ 52) \<le> x / q" | "x / q \<le> of_int (- (2 ^ 52))" by fastforce
    then show ?thesis
    proof cases
      case 1
      then have "2 ^ 52 \<le> n" unfolding n_def by (rule round_even_ge)
      then show ?thesis by simp
    next
      case 2
      then have "n \<le> - (2 ^ 52)" unfolding n_def by (rule round_even_le)
      then show ?thesis by simp
    qed
  next
    case False
    with x_ge show ?thesis by simp
  qed
  have absr: "\<bar>r\<bar> = of_int \<bar>n\<bar> * q" using qpos by (simp add: r abs_mult)
  show ?thesis
  proof (cases "n = 0")
    case True
    then show ?thesis by (simp add: r round64_def)
  next
    case nz: False
    then have rnz: "r \<noteq> 0" using qpos by (simp add: r)
    show ?thesis
    proof (cases "\<bar>n\<bar> = 2 ^ 53")
      case True
      have ar: "\<bar>r\<bar> = 2 powi (e + 1)" using absr True pow2_split(1) [of e] by (simp add: q_def)
      have "2 powi (e + 1) \<le> \<bar>r\<bar>" using ar by simp
      moreover have "\<bar>r\<bar> < 2 powi (e + 1 + 1)"
        using ar by (simp add: power_int_add)
      ultimately have ex: "expo r = e + 1" using e_ge by (intro expo_eqI) simp_all
      have q2: "(2::real) powi (e + 1 - 52) = 2 * q"
        unfolding q_def by (simp add: power_int_add power_int_diff)
      from True have "even n" by (cases "0 \<le> n") (simp_all add: abs_if, presburger+)
      then obtain m where m: "n = 2 * m" by (elim evenE)
      have "r = of_int m * 2 powi (e + 1 - 52)" unfolding q2 by (simp add: r m)
      then have "round_at (e + 1) r = r" using round_at_multiple [of "e + 1" m] by (simp only:)
      then show ?thesis using rnz small ex by (simp add: round64_def)
    next
      case False
      with n_le have "\<bar>n\<bar> < 2 ^ 53" by simp
      then have "(of_int \<bar>n\<bar> :: real) < 2 ^ 53" by (metis of_int_less_iff of_int_numeral of_int_power)
      then have up: "\<bar>r\<bar> < 2 powi (e + 1)"
        using qpos pow2_split(1) [of e] by (simp add: absr q_def)
      have ex: "expo r = e"
      proof (cases "2 ^ 52 \<le> \<bar>n\<bar>")
        case True
        then have "(2 ^ 52 :: real) \<le> of_int \<bar>n\<bar>" by (metis of_int_le_iff of_int_numeral of_int_power)
        then have "2 powi e \<le> \<bar>r\<bar>"
          using qpos pow2_split(2) [of e] by (simp add: absr q_def)
        then show ?thesis using up e_ge by (intro expo_eqI) simp_all
      next
        case False
        with n_ge have "e = - 1022" by simp
        then show ?thesis using up rnz expo_small [of r] by simp
      qed
      have "round_at e r = r" using round_at_multiple [of e n] by (simp add: r q_def)
      then show ?thesis using rnz small ex by (simp add: round64_def)
    qed
  qed
qed

lemma rnd_idem: "rnd (rnd v) = rnd v"
proof (cases v)
  case (Fin x)
  show ?thesis
  proof (cases "round64 x")
    case (Fin r)
    then show ?thesis using round64_idem [OF Fin] \<open>v = Fin x\<close> by simp
  qed (simp_all add: \<open>v = Fin x\<close>)
qed simp_all

lemma round64_evalI:
  assumes "2 powi k \<le> \<bar>x\<bar>" and "\<bar>x\<bar> < 2 powi (k + 1)" and "- 1022 \<le> k"
    and "round_at k x = r" and "\<bar>r\<bar> < 2 ^ 1024"
  shows "round64 x = Fin r"
proof -
  have "(0::real) < 2 powi k" by simp
  then have "0 < \<bar>x\<bar>" using assms(1) by linarith
  then have "x \<noteq> 0" by auto
  then show ?thesis
    using expo_eqI [OF assms(1-3)] assms(4,5) by (simp add: round64_def)
qed

lemmas eval64 = power_int_minus round_at_def round_even_def Let_def

lemma tenth_round: "round64 (1 / 10) = Fin tenth"
  by (rule round64_evalI [where k = "- 4"]) (simp_all add: eval64 tenth_def)

lemma three_tenths_round: "round64 (3 / 10) = Fin three_tenths"
  by (rule round64_evalI [where k = "- 2"]) (simp_all add: eval64 three_tenths_def)

section \<open>The gain curve in binary64\<close>

lemma band_step64_length: "length (band_step64 slider bins j ys) = length ys"
  by (simp add: band_step64_def Let_def)

lemma band_step64_nth:
  "k < length ys \<Longrightarrow>
   band_step64 slider bins j ys ! k = (if k = j then gain_step64 (bins ! j) slider (ys ! j) else ys ! k)"
  by (simp add: band_step64_def gain_step64_def covers64_def Let_def)

lemma band_loop64:
  assumes "length gains = length bins"
  shows "length (fold (band_step64 slider bins) [0..<length bins] gains) = length bins"
    and "k < length bins \<Longrightarrow>
         fold (band_step64 slider bins) [0..<length bins] gains ! k = gain_step64 (bins ! k) slider (gains ! k)"
  using fold_index_loop [of "band_step64 slider bins" "\<lambda>j. gain_step64 (bins ! j) slider" "length bins" gains,
      OF band_step64_length band_step64_nth] assms
  by simp_all

lemma sliders_loop64:
  assumes "length gains = length bins"
  shows "length (fold (\<lambda>slider gains. fold (band_step64 slider bins) [0..<length bins] gains) sliders gains)
           = length bins \<and>
         (\<forall>k<length bins.
            fold (\<lambda>slider gains. fold (band_step64 slider bins) [0..<length bins] gains) sliders gains ! k
              = fold (gain_step64 (bins ! k)) sliders (gains ! k))"
  using assms
proof (induction sliders arbitrary: gains)
  case Nil
  then show ?case by simp
next
  case (Cons s sliders)
  let ?g = "fold (band_step64 s bins) [0..<length bins] gains"
  have l: "length ?g = length bins" using band_loop64(1) [OF Cons.prems] .
  from Cons.IH [OF l] band_loop64(2) [OF Cons.prems] show ?case by simp
qed


lemma generateGainArray64_nth:
  "i < length bins \<Longrightarrow>
   generateGainArray64 sliders bins ! i = fold (gain_step64 (bins ! i)) sliders (Fin 1)"
  using sliders_loop64 [of "replicate (length bins) (Fin 1)" bins sliders]
  by (simp add: generateGainArray64_def)

lemma js_times_one [simp]: "js_times (Fin 1) v = v" "js_times v (Fin 1) = v"
  by (cases v; simp)+

lemma round64_zero [simp]: "round64 0 = Fin 0"
  by (simp add: round64_def)

lemma round64_one [simp]: "round64 1 = Fin 1"
proof -
  have "expo 1 = 0" by (rule expo_eqI) simp_all
  then show ?thesis
    by (simp add: round64_def round_at_def power_int_minus round_even_def)
qed

lemma f64_times_one_rnd: "f64_times (Fin 1) (rnd v) = rnd v" "f64_times (rnd v) (Fin 1) = rnd v"
  by (simp_all add: f64_times_def rnd_idem)


lemma smoothGain64_center:
  assumes "js_pos (f64_divide (Fin (width b)) (Fin 2))"
  shows "smoothGain64 b (centerFreq b) = f64_plus (Fin 1) (f64_minus (Fin (gain b)) (Fin 1))"
proof -
  let ?h = "f64_divide (Fin (width b)) (Fin 2)"
  have n: "f64_divide (Fin 0) ?h = Fin 0"
    using assms by (cases ?h) (simp_all add: f64_divide_def)
  have m: "f64_times (f64_minus (Fin (gain b)) (Fin 1)) (Fin 1) = f64_minus (Fin (gain b)) (Fin 1)"
    unfolding f64_minus_def by (rule f64_times_one_rnd)
  have z: "f64_times (Fin 0) (Fin Math_PI) = Fin 0" "f64_divide (Fin 0) (Fin 2) = Fin 0"
    "f64_cos (Fin 0) = Fin 1" "f64_minus (Fin (centerFreq b)) (Fin (centerFreq b)) = Fin 0"
    by (simp_all add: f64_times_def f64_divide_def f64_cos_def f64_minus_def)
  show ?thesis
    unfolding smoothGain64_def Let_def by (simp add: z n m)
qed

lemma covers64_center:
  assumes "js_pos (f64_divide (Fin (width b)) (Fin 2))"
  shows "covers64 b (centerFreq b)"
  using assms by (cases "f64_divide (Fin (width b)) (Fin 2)") (simp_all add: covers64_def f64_minus_def)

lemma half_width_75: "f64_divide (Fin 150) (Fin 2) = Fin 75"
  apply (simp add: f64_divide_def)
  apply (rule round64_evalI [where k = 6])
  apply (simp_all add: eval64)
  done

lemma tenth_minus_one:
  "f64_minus (Fin tenth) (Fin 1) = Fin (- (8106479329266893 / 9007199254740992))"
  apply (simp add: f64_minus_def tenth_def)
  apply (rule round64_evalI [where k = "- 1"])
  apply (simp_all add: eval64)
  done

lemma tenth_center:
  "f64_plus (Fin 1) (Fin (- (8106479329266893 / 9007199254740992))) =
     Fin (900719925474099 / 9007199254740992)"
  apply (simp add: f64_plus_def)
  apply (rule round64_evalI [where k = "- 4"])
  apply (simp_all add: eval64)
  done







lemma band_at_100_pos: "js_pos (f64_divide (Fin (width (band_at_100 g))) (Fin 2))"
  by (simp add: band_at_100_def half_width_75)

lemma band_at_100_step:
  "gain_step64 100 (band_at_100 g) v =
     f64_times v (f64_plus (Fin 1) (f64_minus (Fin g) (Fin 1)))"
  using covers64_center [OF band_at_100_pos, of g] smoothGain64_center [OF band_at_100_pos, of g]
  by (simp add: gain_step64_def band_at_100_def)

lemma tenth_value: "f64_plus (Fin 1) (f64_minus (Fin tenth) (Fin 1)) = Fin (900719925474099 / 9007199254740992)"
  by (simp only: tenth_minus_one tenth_center)


lemma unity_value: "f64_plus (Fin 1) (f64_minus (Fin 1) (Fin 1)) = Fin 1"
  by (simp add: f64_plus_def f64_minus_def)

lemma first_factor: "f64_times (Fin 1) (f64_plus (Fin 1) v) = f64_plus (Fin 1) v"
  unfolding f64_plus_def by (rule f64_times_one_rnd)

lemma last_unit: "f64_times (f64_plus (Fin 1) v) (Fin 1) = f64_plus (Fin 1) v"
  unfolding f64_plus_def by (rule f64_times_one_rnd)

lemma three_halves_value:
  "f64_plus (Fin 1) (f64_minus (Fin (3 / 2)) (Fin 1)) = Fin (3 / 2)"
proof -
  have "f64_minus (Fin (3 / 2)) (Fin 1) = Fin (1 / 2)"
    apply (simp add: f64_minus_def)
    apply (rule round64_evalI [where k = "- 1"])
    apply (simp_all add: eval64)
    done
  moreover have "f64_plus (Fin 1) (Fin (1 / 2)) = Fin (3 / 2)"
    apply (simp add: f64_plus_def)
    apply (rule round64_evalI [where k = 0])
    apply (simp_all add: eval64)
    done
  ultimately show ?thesis by simp
qed

lemma product_three_halves: "f64_times (Fin (3 / 2)) (Fin (3 / 2)) = Fin (9 / 4)"
  apply (simp add: f64_times_def)
  apply (rule round64_evalI [where k = 1])
  apply (simp_all add: eval64)
  done

section \<open>Overlapping bands\<close>

text \<open>
  Claim C3 as stated: two bands of positive bandwidth, both centered at the axis entry
  \<open>f\<close>, with gains \<open>g1\<close> and \<open>g2\<close>, give exactly \<open>g1 * g2\<close> at \<open>f\<close>. For the gains
  \<open>0.1\<close> and \<open>1.0\<close> the program computes \<open>1 + (0.1 - 1)\<close>, which rounding leaves at
  \<open>0.09999999999999998\<close>, and that is the entry of the curve, not \<open>0.1 * 1.0 = 0.1\<close>.
\<close>

theorem two_centered_bands_exact_counterexample:
  "generateGainArray64 [band_at_100 tenth, band_at_100 1] [100] ! 0 =
     Fin (900719925474099 / 9007199254740992) \<and>
   gain (band_at_100 tenth) * gain (band_at_100 1) = 3602879701896397 / 36028797018963968 \<and>
   generateGainArray64 [band_at_100 tenth, band_at_100 1] [100] ! 0 \<noteq>
     Fin (gain (band_at_100 tenth) * gain (band_at_100 1))"
proof -
  have "generateGainArray64 [band_at_100 tenth, band_at_100 1] [100] ! 0 =
        f64_times (f64_times (Fin 1) (f64_plus (Fin 1) (f64_minus (Fin tenth) (Fin 1))))
          (f64_plus (Fin 1) (f64_minus (Fin 1) (Fin 1)))"
    by (simp add: generateGainArray64_nth band_at_100_step)
  also have "\<dots> = f64_times (f64_plus (Fin 1) (f64_minus (Fin tenth) (Fin 1))) (Fin 1)"
    by (simp only: first_factor unity_value)
  also have "\<dots> = f64_plus (Fin 1) (f64_minus (Fin tenth) (Fin 1))"
    by (rule last_unit)
  also have "\<dots> = Fin (900719925474099 / 9007199254740992)"
    by (rule tenth_value)
  finally show ?thesis
    by (simp add: band_at_100_def tenth_def)
qed

text \<open>
  Claim C3, amended. Two bands, both centered at the axis entry \<open>f\<close>, with half widths
  that are positive as the program computes them and gains \<open>g1\<close> and \<open>g2\<close>: the curve at
  \<open>f\<close> is the product of the two bands' own values at their center,
  \<open>(1 + (g1 - 1)) * (1 + (g2 - 1))\<close>, every operation rounded to binary64. The gains
  stack by multiplication.
\<close>

theorem two_centered_bands_stack:
  assumes "centerFreq b1 = f" and "centerFreq b2 = f"
    and "js_pos (f64_divide (Fin (width b1)) (Fin 2))"
    and "js_pos (f64_divide (Fin (width b2)) (Fin 2))"
    and "i < length frequencyBins" and "frequencyBins ! i = f"
  shows "generateGainArray64 [b1, b2] frequencyBins ! i =
           f64_times (f64_plus (Fin 1) (f64_minus (Fin (gain b1)) (Fin 1)))
                     (f64_plus (Fin 1) (f64_minus (Fin (gain b2)) (Fin 1)))"
proof -
  have c: "covers64 b1 f" "covers64 b2 f"
    using covers64_center [OF assms(3)] covers64_center [OF assms(4)] assms(1,2) by simp_all
  have s: "smoothGain64 b1 f = f64_plus (Fin 1) (f64_minus (Fin (gain b1)) (Fin 1))"
    "smoothGain64 b2 f = f64_plus (Fin 1) (f64_minus (Fin (gain b2)) (Fin 1))"
    using smoothGain64_center [OF assms(3)] smoothGain64_center [OF assms(4)] assms(1,2) by simp_all
  have "f64_times (Fin 1) (smoothGain64 b1 f) = smoothGain64 b1 f"
    unfolding s f64_plus_def by (rule f64_times_one_rnd)
  then show ?thesis
    using assms(5,6) c by (simp add: generateGainArray64_nth gain_step64_def s)
qed

theorem two_centered_bands_stack_witness:
  "centerFreq (band_at_100 (3 / 2)) = 100 \<and>
   js_pos (f64_divide (Fin (width (band_at_100 (3 / 2)))) (Fin 2)) \<and>
   (1::nat) < length [25, 100 :: real] \<and> [25, 100 :: real] ! 1 = 100 \<and>
   generateGainArray64 [band_at_100 (3 / 2), band_at_100 (3 / 2)] [25, 100] ! 1 = Fin (9 / 4)"
proof -
  have h: "centerFreq (band_at_100 (3 / 2)) = 100"
    "js_pos (f64_divide (Fin (width (band_at_100 (3 / 2)))) (Fin 2))"
    "(1::nat) < length [25, 100 :: real]" "[25, 100 :: real] ! 1 = 100"
    by (simp_all add: band_at_100_pos) (simp add: band_at_100_def)
  from two_centered_bands_stack [OF h(1) h(1) h(2) h(2) h(3) h(4)]
  have "generateGainArray64 [band_at_100 (3 / 2), band_at_100 (3 / 2)] [25, 100] ! 1 = Fin (9 / 4)"
    by (simp add: band_at_100_def three_halves_value product_three_halves)
  with h show ?thesis by blast
qed

section \<open>Order of the bands\<close>









section \<open>Settings round trip\<close>

text \<open>
  One saved band, added back: the band returned and appended is the saved band itself, id
  included, since the keys of the record override the defaults and the fresh id.
\<close>

lemma addSlider_saved_band:
  "addSlider sliders now \<lparr>sd_id = Some (id s), sd_centerFreq = Some (centerFreq s),
      sd_width = Some (width s), sd_gain = Some (gain s), sd_label = Some (label s)\<rparr>
   = (s, sliders @ [s])"
  by (simp add: addSlider_def spread_def Let_def)

lemma fold_last_wins:
  "fold (\<lambda>(k, d) state. f k d) xs s = (if xs = [] then s else f (fst (last xs)) (snd (last xs)))"
  by (induction xs arbitrary: s) (simp_all add: case_prod_beta)

text \<open>
  Loading a saved, non-empty set of bands into a collection \<open>sliders\<close> leaves that
  collection with the last saved band appended: each \<open>addSlider\<close> of the loop appends to
  the array of the same render, and the last \<open>setSliders\<close> decides the state.
\<close>

lemma loadSettings_saved:
  assumes "saved \<noteq> []"
  shows "loadSettings sliders clock (Some (Json (saveSettings saved ts))) = sliders @ [last saved]"
proof -
  let ?sd = "\<lambda>slider. \<lparr>sd_id = Some (id slider), sd_centerFreq = Some (centerFreq slider),
          sd_width = Some (width slider), sd_gain = Some (gain slider),
          sd_label = Some (label slider)\<rparr>"
  let ?xs = "enumerate 0 (map ?sd saved)"
  have ne: "?xs \<noteq> []" using assms by (simp add: enumerate_eq_zip)
  have "last ?xs = ?xs ! (length saved - 1)"
    using ne by (simp add: last_conv_nth)
  also have "\<dots> = (length saved - 1, ?sd (saved ! (length saved - 1)))"
    using assms by (simp add: nth_enumerate_eq)
  also have "saved ! (length saved - 1) = last saved"
    using assms by (simp add: last_conv_nth)
  finally have l: "last ?xs = (length saved - 1, ?sd (last saved))" .
  have "fold (\<lambda>(k, sliderData) state. snd (addSlider sliders (clock k) sliderData)) ?xs c
        = sliders @ [last saved]" for c
    using ne l by (simp add: fold_last_wins addSlider_saved_band)
  then show ?thesis
    by (simp add: loadSettings_def saveSettings_def Let_def)
qed

text \<open>
  Claim C6 says that saving a slider set and loading the record back gives a slider set
  with the same center frequency, width, gain and label for every band, in the same
  order. For the two bands Bass and Mid the code gives three bands (Bass, Mid, Mid) when
  the file is loaded into the collection it was saved from, and the single band Mid when
  it is loaded into an empty collection.
\<close>

theorem loadSettings_round_trip_fails:
  "loadSettings [bass, mid] (\<lambda>k. 1700000000000 + int k)
     (Some (Json (saveSettings [bass, mid] ''2025-01-01T00:00:00.000Z''))) = [bass, mid, mid] \<and>
   loadSettings [] (\<lambda>k. 1700000000000 + int k)
     (Some (Json (saveSettings [bass, mid] ''2025-01-01T00:00:00.000Z''))) = [mid]"
  by (simp add: loadSettings_def saveSettings_def addSlider_def spread_def removeSlider_def
      enumerate_eq_zip upt_rec bass_def mid_def Let_def)

section \<open>Updating a band\<close>

text \<open>
  Claim C7 as stated: updating an id that no band has fails with an error. The code
  returns normally, with the collection unchanged.
\<close>

theorem updateSlider_absent_id_counterexample:
  "updateSlider [bass] 99 (no_data\<lparr>sd_gain := Some 2\<rparr>) = Inr [bass]"
  by (simp add: updateSlider_def bass_def)

text \<open>
  Claim C7, amended. \<open>updateSlider\<close> always returns normally, with a collection of the same
  length. Every band whose id matches has each provided field replaced and each other field
  kept; every other band is unchanged; and when no band has the id the collection is
  unchanged (no error is raised).
\<close>

theorem updateSlider_merge:
  "\<exists>r. updateSlider sliders sliderId updates = Inr r \<and> length r = length sliders \<and>
     (sliderId \<notin> id ` set sliders \<longrightarrow> r = sliders) \<and>
     (\<forall>i<length sliders.
        if id (sliders ! i) = sliderId
        then id (r ! i) = (case sd_id updates of None \<Rightarrow> id (sliders ! i) | Some v \<Rightarrow> v) \<and>
             centerFreq (r ! i) =
               (case sd_centerFreq updates of None \<Rightarrow> centerFreq (sliders ! i) | Some v \<Rightarrow> v) \<and>
             width (r ! i) = (case sd_width updates of None \<Rightarrow> width (sliders ! i) | Some v \<Rightarrow> v) \<and>
             gain (r ! i) = (case sd_gain updates of None \<Rightarrow> gain (sliders ! i) | Some v \<Rightarrow> v) \<and>
             label (r ! i) = (case sd_label updates of None \<Rightarrow> label (sliders ! i) | Some v \<Rightarrow> v)
        else r ! i = sliders ! i)"
proof -
  let ?r = "map (\<lambda>slider. if id slider = sliderId then spread slider updates else slider) sliders"
  have "sliderId \<notin> id ` set sliders \<longrightarrow> ?r = sliders"
    by (induction sliders) auto
  then show ?thesis
    by (simp add: updateSlider_def spread_def)
qed

theorem updateSlider_merge_witness:
  "updateSlider [bass, mid] 7 (no_data\<lparr>sd_gain := Some 2\<rparr>) = Inr [bass, mid] \<and>
   updateSlider [bass, mid] 2 (no_data\<lparr>sd_gain := Some 2\<rparr>) = Inr [bass, mid\<lparr>gain := 2\<rparr>]"
proof -
  from updateSlider_merge [of "[bass, mid]" 7 "no_data\<lparr>sd_gain := Some 2\<rparr>"]
  have "updateSlider [bass, mid] 7 (no_data\<lparr>sd_gain := Some 2\<rparr>) = Inr [bass, mid]"
    by (auto simp: bass_def mid_def)
  moreover
  have "updateSlider [bass, mid] 2 (no_data\<lparr>sd_gain := Some 2\<rparr>) = Inr [bass, mid\<lparr>gain := 2\<rparr>]"
    by (simp add: updateSlider_def spread_def bass_def mid_def no_data_def)
  ultimately show ?thesis by simp
qed

section \<open>Ids of added bands\<close>

text \<open>The id of the band \<open>addSlider\<close> returns: the id in the band data when there is
  one, otherwise the clock value. The collection is not consulted.\<close>

lemma addSlider_id:
  "id (fst (addSlider sliders now sliderData)) =
     (case sd_id sliderData of None \<Rightarrow> now | Some v \<Rightarrow> v)"
  by (simp add: addSlider_def spread_def Let_def del: show_nat.simps split: option.split)

text \<open>
  Claim C8 says that the id of an added band is fresh: it differs from every id in the
  collection, also when the band data carries an id and across two consecutive calls. In
  the code, adding band data with the id 1 to a collection that holds the band of id 1
  returns a band of id 1, and two calls of \<open>addSlider\<close> within the same millisecond
  return the same id.
\<close>

theorem addSlider_id_collision:
  "id (fst (addSlider [bass] 1700000000000 (no_data\<lparr>sd_id := Some 1\<rparr>))) = id bass \<and>
   id (fst (addSlider (snd (addSlider [] 1700000000000 no_data)) 1700000000000 no_data)) =
   id (fst (addSlider [] 1700000000000 no_data))"
  by (simp add: addSlider_def spread_def no_data_def bass_def Let_def)

section \<open>The loops of local processing\<close>

lemma fold_update_all:
  assumes "length xs = n"
  shows "fold (\<lambda>i ys. ys[i := F i]) [0..<n] xs = map F [0..<n]"
proof (rule nth_equalityI)
  from fold_index_loop [of "\<lambda>i ys. ys[i := F i]" "\<lambda>i _. F i" n xs]
  have l: "length (fold (\<lambda>i ys. ys[i := F i]) [0..<n] xs) = length xs"
    and v: "\<And>k. k < length xs \<Longrightarrow> fold (\<lambda>i ys. ys[i := F i]) [0..<n] xs ! k = (if k < n then F k else xs ! k)"
    by (simp_all add: nth_list_update)
  show "length (fold (\<lambda>i ys. ys[i := F i]) [0..<n] xs) = length (map F [0..<n])"
    using l assms by simp
  fix i assume "i < length (fold (\<lambda>i ys. ys[i := F i]) [0..<n] xs)"
  then show "fold (\<lambda>i ys. ys[i := F i]) [0..<n] xs ! i = map F [0..<n] ! i"
    using l v [of i] assms by simp
qed

lemma write_sample_at:
  assumes "c < length g"
  shows "write_sample (g[c := B]) c ch i v =
         g[c := B\<lparr>channelData := (channelData B)[ch := (channelData B ! ch)[i := v]]\<rparr>]"
  using assms by (simp add: write_sample_def)

lemma read_sample_other:
  "a \<noteq> c \<Longrightarrow> read_sample (g[c := B]) a ch i = read_sample g a ch i"
  by (simp add: read_sample_def)

lemma channel_loop:
  assumes "a \<noteq> c" and "c < length g" and "ch < length (channelData (g ! c))"
  shows "fold (sample_step a c G ch) [0..<n] g =
         g[c := (g ! c)\<lparr>channelData := (channelData (g ! c))
              [ch := fold (\<lambda>i xs. xs[i := js_times (read_sample g a ch i) (num_at G (int i))])
                       [0..<n] (channelData (g ! c) ! ch)]\<rparr>]"
proof (induction n)
  case 0
  show ?case by simp
next
  case (Suc n)
  let ?B = "(g ! c)\<lparr>channelData := (channelData (g ! c))
              [ch := fold (\<lambda>i xs. xs[i := js_times (read_sample g a ch i) (num_at G (int i))])
                       [0..<n] (channelData (g ! c) ! ch)]\<rparr>"
  have "fold (sample_step a c G ch) [0..<Suc n] g =
        sample_step a c G ch n (fold (sample_step a c G ch) [0..<n] g)"
    by simp
  also have "\<dots> = sample_step a c G ch n (g[c := ?B])"
    by (simp only: Suc)
  also have "\<dots> = write_sample (g[c := ?B]) c ch n
                      (js_times (read_sample g a ch n) (num_at G (int n)))"
    by (simp only: sample_step_def read_sample_other [OF assms(1)])
  also have "\<dots> = g[c := ?B\<lparr>channelData := (channelData ?B)[ch := (channelData ?B ! ch)
                      [n := js_times (read_sample g a ch n) (num_at G (int n))]]\<rparr>]"
    using assms(2) by (rule write_sample_at)
  finally show ?case
    using assms(3) by simp
qed

lemma channels_loop:
  assumes "a \<noteq> c" and "c < length g" and "n \<le> length (channelData (g ! c))"
  shows "fold (channel_step a c G len) [0..<n] g =
         g[c := (g ! c)\<lparr>channelData :=
              fold (\<lambda>ch cd. cd[ch := fold (\<lambda>i xs. xs[i := js_times (read_sample g a ch i) (num_at G (int i))])
                                       [0..<len] (cd ! ch)])
                [0..<n] (channelData (g ! c))\<rparr>]"
  using assms(3)
proof (induction n)
  case 0
  show ?case by simp
next
  case (Suc n)
  let ?cd = "fold (\<lambda>ch cd. cd[ch := fold (\<lambda>i xs. xs[i := js_times (read_sample g a ch i) (num_at G (int i))])
                                       [0..<len] (cd ! ch)])
                [0..<n] (channelData (g ! c))"
  let ?g = "g[c := (g ! c)\<lparr>channelData := ?cd\<rparr>]"
  from Suc have ih: "fold (channel_step a c G len) [0..<n] g = ?g" by simp
  have len_cd: "length ?cd = length (channelData (g ! c))"
    using fold_index_loop [of "\<lambda>ch cd. cd[ch := fold (\<lambda>i xs. xs[i := js_times (read_sample g a ch i) (num_at G (int i))])
                                       [0..<len] (cd ! ch)]"
        "\<lambda>ch. fold (\<lambda>i xs. xs[i := js_times (read_sample g a ch i) (num_at G (int i))]) [0..<len]"
        n "channelData (g ! c)"]
    by (simp add: nth_list_update)
  have "fold (channel_step a c G len) [0..<Suc n] g = channel_step a c G len n ?g"
    by (simp add: ih)
  also have "\<dots> = ?g[c := (?g ! c)\<lparr>channelData := (channelData (?g ! c))
              [n := fold (\<lambda>i xs. xs[i := js_times (read_sample ?g a n i) (num_at G (int i))])
                       [0..<len] (channelData (?g ! c) ! n)]\<rparr>]"
    unfolding channel_step_def
    by (rule channel_loop) (use assms(1,2) Suc.prems len_cd in simp_all)
  finally show ?case
    using assms(1,2) by (simp add: read_sample_other)
qed

lemma fold_channels_pure:
  assumes "length cd = n" and "\<forall>xs\<in>set cd. length xs = len"
  shows "fold (\<lambda>ch cd. cd[ch := fold (\<lambda>i xs. xs[i := F ch i]) [0..<len] (cd ! ch)]) [0..<n] cd
         = map (\<lambda>ch. map (F ch) [0..<len]) [0..<n]"
proof (rule nth_equalityI)
  let ?G = "\<lambda>ch cd. cd[ch := fold (\<lambda>i xs. xs[i := F ch i]) [0..<len] (cd ! ch)]"
  from fold_index_loop [of ?G "\<lambda>ch. fold (\<lambda>i xs. xs[i := F ch i]) [0..<len]" n cd]
  have l: "length (fold ?G [0..<n] cd) = length cd"
    and v: "\<And>k. k < length cd \<Longrightarrow> fold ?G [0..<n] cd ! k =
              (if k < n then fold (\<lambda>i xs. xs[i := F k i]) [0..<len] (cd ! k) else cd ! k)"
    by (simp_all add: nth_list_update)
  show "length (fold ?G [0..<n] cd) = length (map (\<lambda>ch. map (F ch) [0..<len]) [0..<n])"
    using l assms(1) by simp
  fix k assume "k < length (fold ?G [0..<n] cd)"
  then have k: "k < n" "k < length cd" using l assms(1) by simp_all
  then have "length (cd ! k) = len" using assms(2) by simp
  then have "fold (\<lambda>i xs. xs[i := F k i]) [0..<len] (cd ! k) = map (F k) [0..<len]"
    by (rule fold_update_all)
  then show "fold ?G [0..<n] cd ! k = map (\<lambda>ch. map (F ch) [0..<len]) [0..<n] ! k"
    using v [OF k(2)] k by simp
qed

lemma applySimpleProcessing_result:
  assumes "a < length h" and "wf_buffer (h ! a)"
  shows "applySimpleProcessing (Some ctx) h a gainArray =
         Inr (length h, h @ [processed (h ! a) gainArray])"
proof -
  let ?b = "h ! a"
  let ?new = "\<lparr>numberOfChannels = numberOfChannels ?b, buf_length = buf_length ?b,
               sampleRate = sampleRate ?b,
               channelData = replicate (numberOfChannels ?b) (replicate (buf_length ?b) (Fin 0))\<rparr>"
  let ?h1 = "h @ [?new]"
  let ?c = "length h"
  from assms(2) have pos: "numberOfChannels ?b \<noteq> 0" "buf_length ?b \<noteq> 0"
    by (simp_all add: wf_buffer_def)
  have cb: "createBuffer h (numberOfChannels ?b) (buf_length ?b) (sampleRate ?b) = Inr (?c, ?h1)"
    using pos by (simp add: createBuffer_def)
  have rs: "read_sample ?h1 a ch i = num_at (channelData ?b ! ch) (int i)" for ch i
    using assms(1) by (simp add: read_sample_def nth_append)
  have "fold (channel_step a ?c gainArray (buf_length ?b)) [0..<numberOfChannels ?b] ?h1 =
        ?h1[?c := (?h1 ! ?c)\<lparr>channelData :=
              fold (\<lambda>ch cd. cd[ch := fold (\<lambda>i xs. xs[i := js_times (read_sample ?h1 a ch i) (num_at gainArray (int i))])
                                       [0..<buf_length ?b] (cd ! ch)])
                [0..<numberOfChannels ?b] (channelData (?h1 ! ?c))\<rparr>]"
    by (rule channels_loop) (use assms(1) in simp_all)
  also have "\<dots> = h @ [processed ?b gainArray]"
    by (simp add: rs fold_channels_pure processed_def)
  finally show ?thesis
    by (simp add: applySimpleProcessing_def cb)
qed

text \<open>
  Claim C9. Local processing of a buffer of the store returns a reference to a newly
  allocated buffer (one that was not in the store before the call) with the number of
  channels, the length and the sample rate of the input, and leaves every buffer that was
  in the store, the input among them, exactly as it was. Each output sample is the input
  sample times the gain at its index.
\<close>

theorem applySimpleProcessing_frame:
  assumes "a < length h" and "wf_buffer (h ! a)"
  shows "\<exists>c h'. applySimpleProcessing (Some ctx) h a gainArray = Inr (c, h') \<and>
           c = length h \<and> length h' = Suc (length h) \<and>
           (\<forall>b<length h. h' ! b = h ! b) \<and>
           numberOfChannels (h' ! c) = numberOfChannels (h ! a) \<and>
           buf_length (h' ! c) = buf_length (h ! a) \<and>
           sampleRate (h' ! c) = sampleRate (h ! a) \<and>
           wf_buffer (h' ! c) \<and>
           (\<forall>ch<numberOfChannels (h ! a). \<forall>i<buf_length (h ! a).
              channelData (h' ! c) ! ch ! i =
                js_times (channelData (h ! a) ! ch ! i) (num_at gainArray (int i)))"
proof -
  have inr: "channelData (h ! a) ! ch ! i = num_at (channelData (h ! a) ! ch) (int i)"
    if "ch < numberOfChannels (h ! a)" "i < buf_length (h ! a)" for ch i
    using that assms(2) by (simp add: wf_buffer_def num_at_def)
  have wf: "wf_buffer (processed (h ! a) gainArray)"
    using assms(2) by (auto simp: wf_buffer_def processed_def)
  show ?thesis
    using wf inr
    by (simp add: applySimpleProcessing_result [OF assms] nth_append processed_def)
qed

theorem applySimpleProcessing_frame_witness:
  "(0::nat) < length [tone] \<and> wf_buffer ([tone] ! 0) \<and>
   (\<exists>c h'. applySimpleProcessing (Some AudioCtx) [tone] 0 [Fin 2, Fin 1] = Inr (c, h') \<and>
      c = 1 \<and> h' ! 0 = tone \<and> buf_length (h' ! c) = 3 \<and> sampleRate (h' ! c) = 44100 \<and>
      channelData (h' ! c) ! 0 ! 0 = Fin 1)"
proof -
  have h: "(0::nat) < length [tone]" "wf_buffer ([tone] ! 0)"
    by (simp_all add: wf_buffer_def tone_def)
  from applySimpleProcessing_frame [OF h, of AudioCtx "[Fin 2, Fin 1]"]
  obtain c h' where r: "applySimpleProcessing (Some AudioCtx) [tone] 0 [Fin 2, Fin 1] = Inr (c, h')"
    and c: "c = length [tone]"
    and old: "\<forall>b<length [tone]. h' ! b = [tone] ! b"
    and len: "buf_length (h' ! c) = buf_length ([tone] ! 0)"
    and sr: "sampleRate (h' ! c) = sampleRate ([tone] ! 0)"
    and v: "\<forall>ch<numberOfChannels ([tone] ! 0). \<forall>i<buf_length ([tone] ! 0).
              channelData (h' ! c) ! ch ! i =
                js_times (channelData ([tone] ! 0) ! ch ! i) (num_at [Fin 2, Fin 1] (int i))"
    by blast
  from v have "channelData (h' ! c) ! 0 ! 0 = Fin 1"
    by (simp add: tone_def num_at_def)
  with r c old len sr h show ?thesis
    by (simp add: tone_def)
qed

section \<open>Fallback of the backend request\<close>

lemma request_failed_try:
  "request_failed outcome \<Longrightarrow> \<exists>e. processWithBackend_try ctx h a outcome = Inl e"
  by (cases outcome rule: request_failed.cases)
     (simp_all add: processWithBackend_try_def createBuffer_def split: option.split)

text \<open>
  Claim C5 as stated: whenever the request fails in any way, a malformed response body
  included, the locally processed buffer is returned. The body
  \<open>{"processedAudio": [null, null]}\<close> of an \<open>ok\<close> response is not the array of
  numbers the service is to answer with, yet no error is raised: the two entries become
  two samples 0 of the returned buffer, in place of the three locally processed samples.
\<close>

theorem processWithBackend_malformed_counterexample:
  "processWithBackend (Some AudioCtx) [tone] 0 [bass] [Fin 2, Fin 1]
     (FetchResponse True (BodyJson (Some [JNull, JNull]))) =
     Inr (1, [tone, \<lparr>numberOfChannels = 1, buf_length = 2, sampleRate = 44100,
                        channelData = [[Fin 0, Fin 0]]\<rparr>]) \<and>
   applySimpleProcessing (Some AudioCtx) [tone] 0 [Fin 2, Fin 1] =
     Inr (1, [tone, \<lparr>numberOfChannels = 1, buf_length = 3, sampleRate = 44100,
                        channelData = [[Fin 1, Fin (- 0.25), NaN]]\<rparr>])"
  by (simp add: processWithBackend_def processWithBackend_try_def createBuffer_def
      applySimpleProcessing_result wf_buffer_def tone_def processed_def num_at_def upt_rec)

lemma processWithBackend_total:
  assumes "a < length h" and "wf_buffer (h ! a)"
  shows "\<exists>c h'. processWithBackend (Some ctx) h a bands gainArray outcome = Inr (c, h')"
  by (cases "processWithBackend_try (Some ctx) h a outcome")
     (auto simp: processWithBackend_def applySimpleProcessing_result [OF assms])

text \<open>
  Claim C5, amended. With the audio context set and a platform buffer as input, as at the
  only call site: whenever the request to the processing service fails with an error
  (service unreachable, response not ok, body not JSON, body without \<open>processedAudio\<close>
  or with an empty one), \<open>processWithBackend\<close> raises no error and returns what
  \<open>applySimpleProcessing\<close> returns for the same input buffer and gain array, a processed
  buffer. In every other case, an \<open>ok\<close> response whose JSON body has a non-empty
  \<open>processedAudio\<close> array, it returns a new buffer of one channel at the input's sample
  rate that holds the entries of the array converted to numbers, whatever the entries are.
\<close>

theorem processWithBackend_fallback:
  assumes "a < length h" and "wf_buffer (h ! a)"
  shows "(request_failed outcome \<longrightarrow>
            processWithBackend (Some ctx) h a bands gainArray outcome =
              applySimpleProcessing (Some ctx) h a gainArray \<and>
            (\<exists>c h'. processWithBackend (Some ctx) h a bands gainArray outcome = Inr (c, h'))) \<and>
         (\<forall>processedAudio.
            outcome = FetchResponse True (BodyJson (Some processedAudio)) \<and> processedAudio \<noteq> [] \<longrightarrow>
            processWithBackend (Some ctx) h a bands gainArray outcome =
              Inr (length h,
                   h @ [\<lparr>numberOfChannels = 1, buf_length = length processedAudio,
                         sampleRate = sampleRate (h ! a),
                         channelData = [map to_number processedAudio]\<rparr>]))"
proof (intro conjI impI allI)
  assume f: "request_failed outcome"
  from request_failed_try [OF f]
  obtain e where "processWithBackend_try (Some ctx) h a outcome = Inl e" by blast
  then show "processWithBackend (Some ctx) h a bands gainArray outcome =
             applySimpleProcessing (Some ctx) h a gainArray"
    by (simp add: processWithBackend_def)
  then show "\<exists>c h'. processWithBackend (Some ctx) h a bands gainArray outcome = Inr (c, h')"
    by (simp add: applySimpleProcessing_result [OF assms])
next
  fix processedAudio
  assume "outcome = FetchResponse True (BodyJson (Some processedAudio)) \<and> processedAudio \<noteq> []"
  moreover have "numberOfChannels (h ! a) \<noteq> 0" using assms(2) by (simp add: wf_buffer_def)
  ultimately show "processWithBackend (Some ctx) h a bands gainArray outcome =
              Inr (length h,
                   h @ [\<lparr>numberOfChannels = 1, buf_length = length processedAudio,
                         sampleRate = sampleRate (h ! a),
                         channelData = [map to_number processedAudio]\<rparr>])"
    by (simp add: processWithBackend_def processWithBackend_try_def createBuffer_def)
qed

theorem processWithBackend_fallback_witness:
  "(0::nat) < length [tone] \<and> wf_buffer ([tone] ! 0) \<and>
   request_failed (FetchResponse False BodyNotJson) \<and>
   processWithBackend (Some AudioCtx) [tone] 0 [bass] [Fin 2, Fin 1] (FetchResponse False BodyNotJson) =
     applySimpleProcessing (Some AudioCtx) [tone] 0 [Fin 2, Fin 1] \<and>
   (\<exists>c h'. processWithBackend (Some AudioCtx) [tone] 0 [bass] [Fin 2, Fin 1]
              (FetchResponse False BodyNotJson) = Inr (c, h')) \<and>
   [JNum (1 / 2), JBool True] \<noteq> [] \<and>
   processWithBackend (Some AudioCtx) [tone] 0 [bass] [Fin 2, Fin 1]
     (FetchResponse True (BodyJson (Some [JNum (1 / 2), JBool True]))) =
     Inr (1, [tone, \<lparr>numberOfChannels = 1, buf_length = 2, sampleRate = 44100,
                        channelData = [[Fin (1 / 2), Fin 1]]\<rparr>])"
proof -
  have h: "(0::nat) < length [tone]" "wf_buffer ([tone] ! 0)"
    by (simp_all add: wf_buffer_def tone_def)
  have f: "request_failed (FetchResponse False BodyNotJson)" by simp
  from processWithBackend_fallback [OF h, of "FetchResponse False BodyNotJson" AudioCtx "[bass]" "[Fin 2, Fin 1]"] f
  have 1: "processWithBackend (Some AudioCtx) [tone] 0 [bass] [Fin 2, Fin 1] (FetchResponse False BodyNotJson) =
     applySimpleProcessing (Some AudioCtx) [tone] 0 [Fin 2, Fin 1]"
    "\<exists>c h'. processWithBackend (Some AudioCtx) [tone] 0 [bass] [Fin 2, Fin 1]
              (FetchResponse False BodyNotJson) = Inr (c, h')"
    by blast+
  from processWithBackend_fallback [OF h,
      of "FetchResponse True (BodyJson (Some [JNum (1 / 2), JBool True]))" AudioCtx "[bass]" "[Fin 2, Fin 1]"]
  have 2: "processWithBackend (Some AudioCtx) [tone] 0 [bass] [Fin 2, Fin 1]
     (FetchResponse True (BodyJson (Some [JNum (1 / 2), JBool True]))) =
     Inr (1, [tone, \<lparr>numberOfChannels = 1, buf_length = 2, sampleRate = 44100,
                        channelData = [[Fin (1 / 2), Fin 1]]\<rparr>])"
    by (simp add: tone_def)
  from h f 1 2 show ?thesis by simp
qed

lemma processWithBackend_success_example:
  "processWithBackend (Some AudioCtx) [tone] 0 [bass] [Fin 2, Fin 1] (FetchResponse True (BodyJson (Some [JNum 1, JNum 2])))
  = Inr (1, [tone, \<lparr>numberOfChannels = 1, buf_length = 2, sampleRate = 44100, channelData = [[Fin 1, Fin 2]]\<rparr>])"
  by (simp add: processWithBackend_def processWithBackend_try_def createBuffer_def tone_def)

lemma applySimpleProcessing_example:
  "applySimpleProcessing (Some AudioCtx) [tone] 0 [Fin 2, Fin 1] =
     Inr (1, [tone, tone\<lparr>channelData := [[Fin 1, Fin (-0.25), NaN]]\<rparr>])"
  by (simp add: applySimpleProcessing_result wf_buffer_def tone_def processed_def num_at_def upt_rec)

section \<open>Region preview\<close>






lemma playSelectedRegion_example:
  "playSelectedRegion (Some picked) None (Some clip) True 2 =
     Playback \<lparr>numberOfChannels = 1, buf_length = 2, sampleRate = 44100,
               channelData = [[Fin 1, Fin (- 1)]]\<rparr>"
  by (simp add: playSelectedRegion_def selectionToUse_def sample_range_def region_step_def
      num_at_def picked_def clip_def Let_def upt_rec numeral_2_eq_2)


end
